theory Spec2Isabelle
  imports Complex_Main
begin

section \<open>Tensors and the library operations the model calls\<close>

text \<open>
  The program is \<^verbatim>\<open>image_vae.py\<close>: a variational auto-encoder built from
  multilayer perceptrons.  A tensor is a shape together with its cells, addressed by an
  index list of the shape's length.  Cells of numeric tensors are modelled as real numbers:
  rounding, overflow and NaN of 32-bit floats are not represented.  Every failure the
  program can raise is a value of \<open>error\<close>, and a fallible operation returns
  \<open>error + 'a\<close>.
\<close>

datatype error = AssertionError | IndexError | InvalidArgumentError | OverflowError
  | ResourceExhaustedError | TypeError | ValueError | ZeroDivisionError

record 'a tensor =
  shape :: "nat list"
  cell :: "nat list \<Rightarrow> 'a"

definition and_then :: "error + 'a \<Rightarrow> ('a \<Rightarrow> error + 'b) \<Rightarrow> error + 'b" where
  "and_then r f = (case r of Inl e \<Rightarrow> Inl e | Inr v \<Rightarrow> f v)"

definition scalar :: "'a \<Rightarrow> 'a tensor" where
  "scalar x = \<lparr>shape = [], cell = (\<lambda>_. x)\<rparr>"

text \<open>
  Broadcasting, as NumPy and TensorFlow define it: shapes are aligned at the innermost
  axis; two extents are compatible when they are equal or one of them is 1.
  \<open>bdims\<close> works on reversed shapes.
\<close>

fun bdims :: "nat list \<Rightarrow> nat list \<Rightarrow> nat list option" where
  "bdims [] ys = Some ys"
| "bdims xs [] = Some xs"
| "bdims (x # xs) (y # ys) =
     (if x = y \<or> y = 1 then map_option ((#) x) (bdims xs ys)
      else if x = 1 then map_option ((#) y) (bdims xs ys)
      else None)"

definition broadcast_shape :: "nat list \<Rightarrow> nat list \<Rightarrow> nat list option" where
  "broadcast_shape a b = map_option rev (bdims (rev a) (rev b))"

definition bindex :: "nat list \<Rightarrow> nat list \<Rightarrow> nat list" where
  "bindex shp idx =
     map2 (\<lambda>d i. if d = 1 then 0 else i) shp (drop (length idx - length shp) idx)"

definition elementwise ::
  "('a \<Rightarrow> 'b \<Rightarrow> 'c) \<Rightarrow> 'a tensor \<Rightarrow> 'b tensor \<Rightarrow> error + 'c tensor" where
  "elementwise f a b =
     (case broadcast_shape (shape a) (shape b) of
        None \<Rightarrow> Inl InvalidArgumentError
      | Some s \<Rightarrow>
          Inr \<lparr>shape = s,
               cell = (\<lambda>idx. f (cell a (bindex (shape a) idx)) (cell b (bindex (shape b) idx)))\<rparr>)"

definition tmap :: "('a \<Rightarrow> 'b) \<Rightarrow> 'a tensor \<Rightarrow> 'b tensor" where
  "tmap f t = \<lparr>shape = shape t, cell = (\<lambda>idx. f (cell t idx))\<rparr>"

text \<open>
  \<^verbatim>\<open>tf.zeros(dims)\<close> and \<^verbatim>\<open>tf.random.normal(dims, mean, stddev)\<close>.  The
  library rejects a negative extent and a shape of more than \<open>2\<^sup>6\<^sup>3 - 1\<close> elements.  The
  random draw is a parameter \<open>noise\<close>, the standard normal values of the requested shape;
  the library scales them by \<open>stddev\<close> and shifts them by \<open>mean\<close>, both broadcast.
\<close>

definition element_limit :: nat where
  "element_limit = 2 ^ 63 - 1"

definition checked_shape :: "int list \<Rightarrow> error + nat list" where
  "checked_shape dims =
     (if \<exists>d\<in>set dims. d < 0 then Inl InvalidArgumentError
      else if element_limit < prod_list (map nat dims) then Inl InvalidArgumentError
      else Inr (map nat dims))"

definition zeros :: "int list \<Rightarrow> error + real tensor" where
  "zeros dims = and_then (checked_shape dims) (\<lambda>shp. Inr \<lparr>shape = shp, cell = (\<lambda>_. 0)\<rparr>)"

definition random_normal ::
  "int list \<Rightarrow> real tensor \<Rightarrow> real tensor \<Rightarrow> (nat list \<Rightarrow> real) \<Rightarrow> error + real tensor" where
  "random_normal dims mean stddev noise =
     and_then (checked_shape dims) (\<lambda>shp.
     and_then (elementwise (*) \<lparr>shape = shp, cell = noise\<rparr> stddev) (\<lambda>mul.
       elementwise (+) mul mean))"

text \<open>
  \<^verbatim>\<open>tf.Variable(t)\<close> keeps a tensor for the lifetime of the model.  \<open>room\<close> is the
  number of elements of the largest tensor the machine has memory for; a larger variable
  is refused.  Memory for temporary tensors is not modelled.
\<close>

definition variable :: "nat \<Rightarrow> 'a tensor \<Rightarrow> error + 'a tensor" where
  "variable room t =
     (if room < prod_list (shape t) then Inl ResourceExhaustedError else Inr t)"

section \<open>Model construction\<close>

text \<open>
  Python's \<^verbatim>\<open>int(x)\<close> on a float truncates towards zero; \<open>py_int\<close> is that
  truncation of an exact number.
\<close>

definition py_int :: "real \<Rightarrow> int" where
  "py_int x = (if 0 \<le> x then \<lfloor>x\<rfloor> else \<lceil>x\<rceil>)"

text \<open>
  The hidden sizes of lines 19 and 20 are computed in double precision: a true division
  of an integer by 4, the conversion of \<open>input_dim\<close> to a float, a float subtraction, and
  \<^verbatim>\<open>int\<close>.  Every value that occurs is a multiple of \<open>1/4\<close>, so a double of value
  \<open>n / 4\<close> is represented by the integer \<open>n\<close>.  \<open>bits\<close> is the bit length of a number,
  \<open>round53\<close> rounds an integer to 53 significant bits, ties to even, which is the
  rounding of a double's significand.  A result that does not fit a double is an
  \<^verbatim>\<open>OverflowError\<close>, at the division and the conversion directly, for the subtraction
  when \<^verbatim>\<open>int\<close> meets the infinity.
\<close>

fun bits :: "nat \<Rightarrow> nat" where
  "bits n = (if n = 0 then 0 else Suc (bits (n div 2)))"

declare bits.simps [simp del]

definition round_half_even :: "int \<Rightarrow> nat \<Rightarrow> int" where
  "round_half_even n s =
     (let q = n div 2 ^ s; r = n mod 2 ^ s
      in if 2 * r < 2 ^ s then q
         else if 2 ^ s < 2 * r then q + 1
         else if even q then q else q + 1)"

definition round53 :: "int \<Rightarrow> int" where
  "round53 n = (let s = bits (nat \<bar>n\<bar>) - 53 in round_half_even n s * 2 ^ s)"

definition to_double :: "int \<Rightarrow> error + int" where
  "to_double n =
     (let r = round53 n in if 1026 < bits (nat \<bar>r\<bar>) then Inl OverflowError else Inr r)"

definition int_of_double :: "int \<Rightarrow> int" where
  "int_of_double q = (if 0 \<le> q then q div 4 else - ((- q) div 4))"

definition hidden_1_dim :: "int \<Rightarrow> int \<Rightarrow> error + int" where
  "hidden_1_dim input_dim code_dim =
     and_then (to_double (input_dim - code_dim)) (\<lambda>quotient.
     and_then (to_double (4 * input_dim)) (\<lambda>x.
     and_then (to_double (x - quotient)) (\<lambda>difference.
       Inr (int_of_double difference))))"

definition hidden_2_dim :: "int \<Rightarrow> int \<Rightarrow> error + int" where
  "hidden_2_dim input_dim code_dim =
     and_then (to_double (3 * (input_dim - code_dim))) (\<lambda>quotient.
     and_then (to_double (4 * input_dim)) (\<lambda>x.
     and_then (to_double (x - quotient)) (\<lambda>difference.
       Inr (int_of_double difference))))"

record params =
  enc_W0 :: "real tensor"
  enc_b0 :: "real tensor"
  enc_W1 :: "real tensor"
  enc_b1 :: "real tensor"
  enc_W2 :: "real tensor"
  enc_b2 :: "real tensor"
  dec_W0 :: "real tensor"
  dec_b0 :: "real tensor"
  dec_W1 :: "real tensor"
  dec_b1 :: "real tensor"
  dec_W2 :: "real tensor"
  dec_b2 :: "real tensor"

text \<open>
  \<^verbatim>\<open>__init__\<close>: the assertion comes first, then the two hidden sizes, then the twelve
  entries of the parameter dictionary in the order written, each a variable.  \<open>draw\<close>
  gives the standard normal values drawn for each weight matrix.
\<close>

definition init ::
  "nat \<Rightarrow> (string \<Rightarrow> nat list \<Rightarrow> real) \<Rightarrow> int \<Rightarrow> int \<Rightarrow> error + params" where
  "init room draw input_dim code_dim =
     (if \<not> code_dim < input_dim then Inl AssertionError
      else
        and_then (hidden_1_dim input_dim code_dim) (\<lambda>hidden_1.
        and_then (hidden_2_dim input_dim code_dim) (\<lambda>hidden_2.
        let weights = (\<lambda>name dims.
              and_then (random_normal dims (scalar 0) (scalar 0.05) (draw name)) (variable room));
            bias = (\<lambda>dims. and_then (zeros dims) (variable room))
        in
        and_then (weights ''enc_W0'' [hidden_1, input_dim]) (\<lambda>eW0.
        and_then (bias [hidden_1, 1]) (\<lambda>eb0.
        and_then (weights ''enc_W1'' [hidden_2, hidden_1]) (\<lambda>eW1.
        and_then (bias [hidden_2, 1]) (\<lambda>eb1.
        and_then (weights ''enc_W2'' [code_dim * 2, hidden_2]) (\<lambda>eW2.
        and_then (bias [code_dim * 2, 1]) (\<lambda>eb2.
        and_then (weights ''dec_W0'' [hidden_2, code_dim]) (\<lambda>dW0.
        and_then (bias [hidden_2, 1]) (\<lambda>db0.
        and_then (weights ''dec_W1'' [hidden_1, hidden_2]) (\<lambda>dW1.
        and_then (bias [hidden_1, 1]) (\<lambda>db1.
        and_then (weights ''dec_W2'' [input_dim, hidden_1]) (\<lambda>dW2.
        and_then (bias [input_dim, 1]) (\<lambda>db2.
          Inr \<lparr>enc_W0 = eW0, enc_b0 = eb0, enc_W1 = eW1, enc_b1 = eb1,
               enc_W2 = eW2, enc_b2 = eb2, dec_W0 = dW0, dec_b0 = db0,
               dec_W1 = dW1, dec_b1 = db1, dec_W2 = dW2, dec_b2 = db2\<rparr>)))))))))))))))"

text \<open>
  The shapes of the twelve parameters, in the order of the dictionary, and the shapes a
  construction yields.  \<open>no_noise\<close> is the draw in which every standard normal value is 0.
\<close>

definition param_shapes :: "params \<Rightarrow> nat list list" where
  "param_shapes p =
     [shape (enc_W0 p), shape (enc_b0 p), shape (enc_W1 p), shape (enc_b1 p),
      shape (enc_W2 p), shape (enc_b2 p), shape (dec_W0 p), shape (dec_b0 p),
      shape (dec_W1 p), shape (dec_b1 p), shape (dec_W2 p), shape (dec_b2 p)]"

definition constructed_shapes ::
  "nat \<Rightarrow> (string \<Rightarrow> nat list \<Rightarrow> real) \<Rightarrow> int \<Rightarrow> int \<Rightarrow> error + nat list list" where
  "constructed_shapes room draw input_dim code_dim =
     (case init room draw input_dim code_dim of
        Inl e \<Rightarrow> Inl e
      | Inr p \<Rightarrow> Inr (param_shapes p))"

definition no_noise :: "string \<Rightarrow> nat list \<Rightarrow> real" where
  "no_noise name idx = 0"

text \<open>
  The interpolation formulas as the specification writes them, without truncation:
  \<open>hidden_1 = input_dim - (input_dim - code_dim) / 4\<close> and
  \<open>hidden_2 = input_dim - 3 * (input_dim - code_dim) / 4\<close>.
\<close>

definition spec_hidden_1 :: "int \<Rightarrow> int \<Rightarrow> real" where
  "spec_hidden_1 input_dim code_dim = of_int input_dim - of_int (input_dim - code_dim) / 4"

definition spec_hidden_2 :: "int \<Rightarrow> int \<Rightarrow> real" where
  "spec_hidden_2 input_dim code_dim = of_int input_dim - 3 * of_int (input_dim - code_dim) / 4"

section \<open>Encoder, sampler and decoder\<close>

text \<open>
  \<^verbatim>\<open>tf.matmul\<close> on matrices, with the optional transposition of the second factor.
  Only the product of two tensors of rank 2 is modelled; the library's batched product
  of tensors of higher rank is not, and other ranks are rejected here.
  \<^verbatim>\<open>tf.transpose\<close> without a permutation reverses the axes.
\<close>

definition transpose_t :: "'a tensor \<Rightarrow> 'a tensor" where
  "transpose_t t = \<lparr>shape = rev (shape t), cell = (\<lambda>idx. cell t (rev idx))\<rparr>"

definition matmul :: "real tensor \<Rightarrow> real tensor \<Rightarrow> bool \<Rightarrow> error + real tensor" where
  "matmul a b transpose_b =
     (let b' = (if transpose_b then transpose_t b else b) in
      case (shape a, shape b') of
        ([m, k], [k', n]) \<Rightarrow>
          if k = k'
          then Inr \<lparr>shape = [m, n],
                    cell = (\<lambda>idx. \<Sum>l\<leftarrow>[0..<k]. cell a [idx ! 0, l] * cell b' [l, idx ! 1])\<rparr>
          else Inl InvalidArgumentError
      | _ \<Rightarrow> Inl InvalidArgumentError)"

definition leaky_relu :: "real \<Rightarrow> real" where
  "leaky_relu x = max (0.2 * x) x"

definition sigmoid :: "real \<Rightarrow> real" where
  "sigmoid x = 1 / (1 + exp (- x))"

definition dim :: "'a tensor \<Rightarrow> nat \<Rightarrow> error + nat" where
  "dim t k = (if k < length (shape t) then Inr (shape t ! k) else Inl IndexError)"

text \<open>The slices \<^verbatim>\<open>t[:, :c]\<close> and \<^verbatim>\<open>t[:, c:]\<close> for \<open>c \<ge> 0\<close>; bounds are clamped.\<close>

definition cols_upto :: "'a tensor \<Rightarrow> nat \<Rightarrow> error + 'a tensor" where
  "cols_upto t c =
     (case shape t of
        r # w # rest \<Rightarrow> Inr \<lparr>shape = r # min c w # rest, cell = cell t\<rparr>
      | _ \<Rightarrow> Inl IndexError)"

definition cols_from :: "'a tensor \<Rightarrow> nat \<Rightarrow> error + 'a tensor" where
  "cols_from t c =
     (case shape t of
        r # w # rest \<Rightarrow>
          Inr \<lparr>shape = r # (w - c) # rest,
               cell = (\<lambda>idx. case idx of
                                i # j # others \<Rightarrow> cell t (i # (j + c) # others)
                              | _ \<Rightarrow> cell t idx)\<rparr>
      | _ \<Rightarrow> Inl IndexError)"

text \<open>
  \<^verbatim>\<open>encode\<close>.  \<open>encoded_distribution\<close> is the local variable of that name: the output
  of the three layers, transposed to one row per example.
\<close>

definition encoded_distribution :: "params \<Rightarrow> real tensor \<Rightarrow> error + real tensor" where
  "encoded_distribution p inputs =
     and_then (matmul (enc_W0 p) inputs True) (\<lambda>m0.
     and_then (elementwise (+) m0 (enc_b0 p)) (\<lambda>a0.
     let hidden_layer_1 = tmap leaky_relu a0 in
     and_then (matmul (enc_W1 p) hidden_layer_1 False) (\<lambda>m1.
     and_then (elementwise (+) m1 (enc_b1 p)) (\<lambda>a1.
     let hidden_layer_2 = tmap leaky_relu a1 in
     and_then (matmul (enc_W2 p) hidden_layer_2 False) (\<lambda>m2.
     and_then (elementwise (+) m2 (enc_b2 p)) (\<lambda>a2.
       Inr (transpose_t a2)))))))"

definition encode :: "params \<Rightarrow> real tensor \<Rightarrow> error + (real tensor \<times> real tensor)" where
  "encode p inputs =
     and_then (encoded_distribution p inputs) (\<lambda>e.
     and_then (dim e 1) (\<lambda>width.
     let code_dim = nat (py_int (real width / 2)) in
     and_then (cols_upto e code_dim) (\<lambda>mean.
     and_then (cols_from e code_dim) (\<lambda>tail.
       Inr (mean, tmap abs tail)))))"

definition sample_encoding ::
  "(nat list \<Rightarrow> real) \<Rightarrow> real tensor \<Rightarrow> real tensor \<Rightarrow> error + real tensor" where
  "sample_encoding noise mean stddev =
     (if shape mean \<noteq> shape stddev then Inl AssertionError
      else
        and_then (dim mean 0) (\<lambda>d0.
        and_then (dim mean 1) (\<lambda>d1.
          random_normal [int d0, int d1] mean stddev noise)))"

definition decode :: "params \<Rightarrow> real tensor \<Rightarrow> error + real tensor" where
  "decode p sampled_encoding =
     and_then (matmul (dec_W0 p) sampled_encoding True) (\<lambda>m0.
     and_then (elementwise (+) m0 (dec_b0 p)) (\<lambda>a0.
     let hidden_layer_1 = tmap leaky_relu a0 in
     and_then (matmul (dec_W1 p) hidden_layer_1 False) (\<lambda>m1.
     and_then (elementwise (+) m1 (dec_b1 p)) (\<lambda>a1.
     let hidden_layer_2 = tmap leaky_relu a1 in
     and_then (matmul (dec_W2 p) hidden_layer_2 False) (\<lambda>m2.
     and_then (elementwise (+) m2 (dec_b2 p)) (\<lambda>a2.
       Inr (transpose_t (tmap sigmoid a2))))))))"

text \<open>
  A valid model for \<open>input_dim\<close> and \<open>code_dim\<close>: the twelve parameters have the shapes
  construction gives them.  Training changes cells, never shapes.
\<close>

definition valid_params :: "params \<Rightarrow> nat \<Rightarrow> nat \<Rightarrow> nat \<Rightarrow> nat \<Rightarrow> bool" where
  "valid_params p input_dim hidden_1 hidden_2 code_dim \<longleftrightarrow>
     shape (enc_W0 p) = [hidden_1, input_dim] \<and> shape (enc_b0 p) = [hidden_1, 1] \<and>
     shape (enc_W1 p) = [hidden_2, hidden_1] \<and> shape (enc_b1 p) = [hidden_2, 1] \<and>
     shape (enc_W2 p) = [code_dim * 2, hidden_2] \<and> shape (enc_b2 p) = [code_dim * 2, 1] \<and>
     shape (dec_W0 p) = [hidden_2, code_dim] \<and> shape (dec_b0 p) = [hidden_2, 1] \<and>
     shape (dec_W1 p) = [hidden_1, hidden_2] \<and> shape (dec_b1 p) = [hidden_1, 1] \<and>
     shape (dec_W2 p) = [input_dim, hidden_1] \<and> shape (dec_b2 p) = [input_dim, 1]"

text \<open>
  A small model for examples: \<open>input_dim = 5\<close>, \<open>code_dim = 2\<close>, hidden sizes 4 and 2,
  every weight 0.05 and every bias 0; a batch of three inputs and a batch of three codes.
\<close>

definition filled :: "nat list \<Rightarrow> real \<Rightarrow> real tensor" where
  "filled shp x = \<lparr>shape = shp, cell = (\<lambda>_. x)\<rparr>"

definition tiny_params :: params where
  "tiny_params =
     \<lparr>enc_W0 = filled [4, 5] 0.05, enc_b0 = filled [4, 1] 0,
      enc_W1 = filled [2, 4] 0.05, enc_b1 = filled [2, 1] 0,
      enc_W2 = filled [4, 2] 0.05, enc_b2 = filled [4, 1] 0,
      dec_W0 = filled [2, 2] 0.05, dec_b0 = filled [2, 1] 0,
      dec_W1 = filled [4, 2] 0.05, dec_b1 = filled [4, 1] 0,
      dec_W2 = filled [5, 4] 0.05, dec_b2 = filled [5, 1] 0\<rparr>"

definition tiny_inputs :: "real tensor" where
  "tiny_inputs = filled [3, 5] 0.5"

definition tiny_codes :: "real tensor" where
  "tiny_codes = filled [3, 2] 0.5"

section \<open>Loss\<close>

text \<open>
  Keras' \<^verbatim>\<open>mean_squared_error(y_true, y_pred)\<close> averages the squared difference over
  the last axis, leaving one value per example; \<^verbatim>\<open>tf.reduce_mean\<close> averages all
  cells into a scalar.  An average over no cell is NaN in the library and \<open>0\<close> here.
\<close>

fun all_indices :: "nat list \<Rightarrow> nat list list" where
  "all_indices [] = [[]]"
| "all_indices (d # ds) = concat (map (\<lambda>i. map ((#) i) (all_indices ds)) [0..<d])"

definition mean_last_axis :: "real tensor \<Rightarrow> error + real tensor" where
  "mean_last_axis t =
     (if shape t = [] then Inl InvalidArgumentError
      else Inr \<lparr>shape = butlast (shape t),
                cell = (\<lambda>idx. (\<Sum>j\<leftarrow>[0..<last (shape t)]. cell t (idx @ [j]))
                               / real (last (shape t)))\<rparr>)"

definition mean_squared_error :: "real tensor \<Rightarrow> real tensor \<Rightarrow> error + real tensor" where
  "mean_squared_error y_true y_pred =
     and_then (elementwise (\<lambda>a b. (a - b)\<^sup>2) y_pred y_true) mean_last_axis"

definition reduce_mean :: "real tensor \<Rightarrow> real tensor" where
  "reduce_mean t =
     scalar ((\<Sum>idx\<leftarrow>all_indices (shape t). cell t idx) / real (length (all_indices (shape t))))"

text \<open>
  Line 63 calls Keras' \<^verbatim>\<open>kullback_leibler_divergence(y_true, y_pred)\<close>, a loss on
  tensors, with two distribution objects of tensorflow_probability.  An argument of a
  library function is therefore a tensor or a normal distribution with its parameters.
  The Keras function first converts \<open>y_pred\<close> and then \<open>y_true\<close> to tensors; a
  distribution object is no tensor and the conversion raises.  \<open>refusal\<close> is the
  exception it raises, a \<^verbatim>\<open>ValueError\<close> or a \<^verbatim>\<open>TypeError\<close> depending on the version
  of the library.  On tensors the function clips both to \<open>[epsilon, 1]\<close> and sums
  \<open>y_true * log (y_true / y_pred)\<close> over the last axis.
\<close>

datatype argument = Tensor "real tensor" | Normal "real tensor" "real tensor"

definition convert_to_tensor :: "error \<Rightarrow> argument \<Rightarrow> error + real tensor" where
  "convert_to_tensor refusal a =
     (case a of Tensor t \<Rightarrow> Inr t | Normal loc scale \<Rightarrow> Inl refusal)"

definition sum_last_axis :: "real tensor \<Rightarrow> error + real tensor" where
  "sum_last_axis t =
     (if shape t = [] then Inl InvalidArgumentError
      else Inr \<lparr>shape = butlast (shape t),
                cell = (\<lambda>idx. \<Sum>j\<leftarrow>[0..<last (shape t)]. cell t (idx @ [j]))\<rparr>)"

definition clip :: "real \<Rightarrow> real" where
  "clip x = min 1 (max (1 / 10000000) x)"

definition kullback_leibler_divergence ::
  "error \<Rightarrow> argument \<Rightarrow> argument \<Rightarrow> error + real tensor" where
  "kullback_leibler_divergence refusal y_true y_pred =
     and_then (convert_to_tensor refusal y_pred) (\<lambda>p.
     and_then (convert_to_tensor refusal y_true) (\<lambda>t.
     and_then (elementwise (\<lambda>a b. a * ln (a / b)) (tmap clip t) (tmap clip p))
       sum_last_axis))"

text \<open>
  \<^verbatim>\<open>loss\<close>.  The Python operators \<^verbatim>\<open>*\<close>, \<^verbatim>\<open>+\<close> and \<^verbatim>\<open>/\<close> broadcast.
\<close>

definition loss ::
  "error \<Rightarrow> (nat list \<Rightarrow> real) \<Rightarrow> params \<Rightarrow> real tensor \<Rightarrow> error + real tensor" where
  "loss refusal noise p inputs =
     and_then (encode p inputs) (\<lambda>(mean, stddev).
     and_then (kullback_leibler_divergence refusal
                 (Normal (scalar 0) (scalar 1)) (Normal mean stddev)) (\<lambda>kl_divergence.
     and_then (sample_encoding noise mean stddev) (\<lambda>encoded.
     and_then (decode p encoded) (\<lambda>decoded.
     and_then (mean_squared_error inputs decoded) (\<lambda>per_example.
     let mean_square_error = reduce_mean per_example in
     and_then (elementwise (*) (scalar 3) mean_square_error) (\<lambda>weighted.
     and_then (elementwise (+) weighted kl_divergence) (\<lambda>total.
       elementwise (/) total (scalar 4))))))))"

section \<open>Training loop\<close>

text \<open>
  The loop works on a state \<open>'s\<close> that holds everything a training run mutates: the
  parameters, the random generator and the optimizer's own variables.  The collaborators
  are fields of \<open>env\<close>: \<open>loss_op\<close> is \<^verbatim>\<open>self.loss\<close> on the current state,
  \<open>gradient\<close> is \<^verbatim>\<open>t.gradient(current_loss, self._params)\<close> of the tape that
  recorded the loss, \<open>apply_gradients\<close> is the optimizer's step.
\<close>

record ('s, 'g) env =
  loss_op :: "real tensor \<Rightarrow> 's \<Rightarrow> error + (real tensor \<times> 's)"
  gradient :: "real tensor \<Rightarrow> 's \<Rightarrow> error + 'g"
  apply_gradients :: "'g \<Rightarrow> 's \<Rightarrow> error + 's"

definition training_step :: "('s, 'g) env \<Rightarrow> real tensor \<Rightarrow> 's \<Rightarrow> error + 's" where
  "training_step env inputs s =
     and_then (loss_op env inputs s) (\<lambda>(current_loss, s1).
     and_then (gradient env current_loss s1) (\<lambda>grads.
       apply_gradients env grads s1))"

text \<open>The slice \<^verbatim>\<open>t[lo:hi]\<close> of rows, for \<open>0 \<le> lo\<close> and \<open>0 \<le> hi\<close>; bounds are clamped.\<close>

definition rows_between :: "'a tensor \<Rightarrow> nat \<Rightarrow> nat \<Rightarrow> error + 'a tensor" where
  "rows_between t lo hi =
     (case shape t of
        [] \<Rightarrow> Inl IndexError
      | n # rest \<Rightarrow>
          Inr \<lparr>shape = (min hi n - min lo n) # rest,
               cell = (\<lambda>idx. case idx of [] \<Rightarrow> cell t [] | i # others \<Rightarrow> cell t ((i + lo) # others))\<rparr>)"

text \<open>
  \<^verbatim>\<open>int(inputs.shape[0] / batch_size)\<close>.  The true division of two integers gives
  the double nearest to their quotient, ties to even, or an \<^verbatim>\<open>OverflowError\<close>;
  \<^verbatim>\<open>int\<close> truncates it.  For \<open>p \<ge> 0\<close> and \<open>q > 0\<close>, \<open>int_of_quotient p q\<close> is
  \<^verbatim>\<open>int(p / q)\<close>: \<open>exponent p q\<close> is the binary exponent of the double's last place
  (at least \<open>-1074\<close>, that of the subnormal numbers), \<open>scaled p q e\<close> is the quotient
  \<open>p / (q * 2\<^sup>e)\<close> as a fraction, and \<open>round_ratio\<close> rounds a fraction to the nearest
  integer, ties to even.  A batch size of zero raises; a negative one gives a quotient
  that is not positive, and an empty range.
\<close>

definition scaled :: "nat \<Rightarrow> nat \<Rightarrow> int \<Rightarrow> nat \<times> nat" where
  "scaled p q e = (if 0 \<le> e then (p, q * 2 ^ nat e) else (p * 2 ^ nat (- e), q))"

definition round_ratio :: "nat \<times> nat \<Rightarrow> nat" where
  "round_ratio ab =
     (case ab of (a, b) \<Rightarrow>
        let k = a div b; r = a mod b
        in if 2 * r < b then k else if b < 2 * r then k + 1 else if even k then k else k + 1)"

definition normal_exponent :: "nat \<Rightarrow> nat \<Rightarrow> int" where
  "normal_exponent p q =
     (let e0 = int (bits p) - int (bits q) - 53
      in case scaled p q e0 of (a, b) \<Rightarrow> if a < 2 ^ 53 * b then e0 else e0 + 1)"

definition exponent :: "nat \<Rightarrow> nat \<Rightarrow> int" where
  "exponent p q = max (normal_exponent p q) (- 1074)"

definition int_of_quotient :: "nat \<Rightarrow> nat \<Rightarrow> error + nat" where
  "int_of_quotient p q =
     (if p = 0 then Inr 0
      else
        let e = exponent p q; m = round_ratio (scaled p q e)
        in if 0 \<le> e
           then (if 1024 < bits (m * 2 ^ nat e) then Inl OverflowError else Inr (m * 2 ^ nat e))
           else Inr (m div 2 ^ nat (- e)))"

definition num_batches :: "'a tensor \<Rightarrow> int \<Rightarrow> error + nat" where
  "num_batches inputs batch_size =
     and_then (dim inputs 0) (\<lambda>n.
       if batch_size = 0 then Inl ZeroDivisionError
       else and_then (int_of_quotient n (nat \<bar>batch_size\<bar>)) (\<lambda>k.
              Inr (if batch_size < 0 then 0 else k)))"

fun train_batches ::
  "('s, 'g) env \<Rightarrow> real tensor \<Rightarrow> nat \<Rightarrow> nat list \<Rightarrow> 's \<Rightarrow> error + 's" where
  "train_batches env inputs batch_size [] s = Inr s"
| "train_batches env inputs batch_size (batch_num # rest) s =
     and_then (rows_between inputs (batch_num * batch_size) (batch_num * batch_size + batch_size))
       (\<lambda>inputs_batch.
     and_then (training_step env inputs_batch s) (train_batches env inputs batch_size rest))"

text \<open>
  The truth value Python takes of a tensor in \<^verbatim>\<open>if\<close>: defined for a tensor of exactly
  one cell, an error otherwise.
\<close>

definition truth :: "bool tensor \<Rightarrow> error + bool" where
  "truth t =
     (if prod_list (shape t) = 1 then Inr (cell t (replicate (length (shape t)) 0))
      else Inl ValueError)"

text \<open>
  The condition \<^verbatim>\<open>epoch_num > 15 and val_loss - train_loss > train_loss / 32\<close>.
  \<open>loss_gap_exceeds\<close> is its second operand, taken as a truth value by \<^verbatim>\<open>if\<close>;
  \<^verbatim>\<open>and\<close> evaluates it only when the first operand is true.
\<close>

definition loss_gap_exceeds :: "real tensor \<Rightarrow> real tensor \<Rightarrow> error + bool" where
  "loss_gap_exceeds train_loss val_loss =
     and_then (elementwise (-) val_loss train_loss) (\<lambda>difference.
     and_then (elementwise (/) train_loss (scalar 32)) (\<lambda>bound.
     and_then (elementwise (\<lambda>x y. y < x) difference bound) truth))"

definition stop_check :: "nat \<Rightarrow> real tensor \<Rightarrow> real tensor \<Rightarrow> error + bool" where
  "stop_check epoch_num train_loss val_loss =
     (if \<not> 15 < epoch_num then Inr False else loss_gap_exceeds train_loss val_loss)"

datatype outcome = Completed | StoppedEarly

type_synonym report = "nat \<times> real tensor \<times> real tensor"

text \<open>The inner loop over the batches of one epoch, and the whole body of an epoch.\<close>

definition epoch_training :: "('s, 'g) env \<Rightarrow> real tensor \<Rightarrow> int \<Rightarrow> 's \<Rightarrow> error + 's" where
  "epoch_training env inputs batch_size s =
     and_then (num_batches inputs batch_size) (\<lambda>n.
       train_batches env inputs (nat batch_size) [0..<n] s)"

definition run_epoch ::
  "('s, 'g) env \<Rightarrow> real tensor \<Rightarrow> real tensor \<Rightarrow> int \<Rightarrow> 's \<Rightarrow>
   error + ('s \<times> real tensor \<times> real tensor)" where
  "run_epoch env inputs val_inputs batch_size s =
     and_then (epoch_training env inputs batch_size s) (\<lambda>s1.
     and_then (loss_op env inputs s1) (\<lambda>(train_loss, s2).
     and_then (loss_op env val_inputs s2) (\<lambda>(val_loss, s3).
       Inr (s3, train_loss, val_loss))))"

text \<open>
  The loop over \<^verbatim>\<open>range(1, num_epochs + 1)\<close>: the first argument counts the epochs
  still to run, \<open>epoch_num\<close> is the number of the next one.  Each completed epoch prints
  one report; the reports are kept in order.
\<close>

fun epochs ::
  "('s, 'g) env \<Rightarrow> real tensor \<Rightarrow> real tensor \<Rightarrow> int \<Rightarrow> nat \<Rightarrow> nat \<Rightarrow> 's \<Rightarrow> report list \<Rightarrow>
   error + (outcome \<times> 's \<times> report list)" where
  "epochs env inputs val_inputs batch_size 0 epoch_num s printed = Inr (Completed, s, printed)"
| "epochs env inputs val_inputs batch_size (Suc k) epoch_num s printed =
     and_then (run_epoch env inputs val_inputs batch_size s) (\<lambda>(s', train_loss, val_loss).
     let printed' = printed @ [(epoch_num, train_loss, val_loss)] in
     and_then (stop_check epoch_num train_loss val_loss) (\<lambda>stop.
       if stop then Inr (StoppedEarly, s', printed')
       else epochs env inputs val_inputs batch_size k (Suc epoch_num) s' printed'))"

definition train ::
  "('s, 'g) env \<Rightarrow> real tensor \<Rightarrow> real tensor \<Rightarrow> int \<Rightarrow> int \<Rightarrow> 's \<Rightarrow>
   error + (outcome \<times> 's \<times> report list)" where
  "train env inputs val_inputs num_epochs batch_size s =
     epochs env inputs val_inputs batch_size (nat num_epochs) 1 s []"



definition row_count :: "(unit, unit) env" where
  "row_count =
     \<lparr>loss_op = (\<lambda>inputs s. Inr (scalar (real (hd (shape inputs))), s)),
      gradient = (\<lambda>current_loss s. Inr ()),
      apply_gradients = (\<lambda>grads s. Inr s)\<rparr>"


text \<open>A training set of a single example, for examples.\<close>

definition one_example :: "real tensor" where
  "one_example = filled [1, 5] 0.5"

text \<open>For examples: a draw of zeros.\<close>

definition zero_draw :: "nat list \<Rightarrow> real" where
  "zero_draw idx = 0"

section \<open>Hidden sizes\<close>

lemma and_then_Inr [simp]: "and_then (Inr v) f = f v"
  by (simp add: and_then_def)

lemma and_then_Inl [simp]: "and_then (Inl e) f = Inl e"
  by (simp add: and_then_def)

lemma bdims_Nil2 [simp]: "bdims xs [] = Some xs"
  by (cases xs) simp_all

lemma broadcast_shape_scalar [simp]:
  "broadcast_shape s [] = Some s" "broadcast_shape [] s = Some s"
  by (simp_all add: broadcast_shape_def)

lemma bits_le: "n < 2 ^ k \<Longrightarrow> bits n \<le> k"
proof (induction k arbitrary: n)
  case 0
  then show ?case by (simp add: bits.simps)
next
  case (Suc k)
  show ?case
  proof (cases "n = 0")
    case True
    then show ?thesis by (simp add: bits.simps)
  next
    case False
    have "n div 2 < 2 ^ k" using Suc.prems by simp
    then have "bits (n div 2) \<le> k" by (rule Suc.IH)
    then show ?thesis using False by (subst bits.simps) simp
  qed
qed

lemma bits_eq: "2 ^ k \<le> n \<Longrightarrow> n < 2 ^ Suc k \<Longrightarrow> bits n = Suc k"
proof (induction k arbitrary: n)
  case 0
  then have "n = 1" by simp
  then show ?case by (simp add: bits.simps)
next
  case (Suc k)
  have "2 ^ k \<le> n div 2" "n div 2 < 2 ^ Suc k" using Suc.prems by simp_all
  then have "bits (n div 2) = Suc k" by (rule Suc.IH)
  moreover have "n \<noteq> 0" using Suc.prems by auto
  ultimately show ?case by (subst bits.simps) simp
qed

lemma round53_small: "\<bar>n\<bar> < 2 ^ 53 \<Longrightarrow> round53 n = n"
proof -
  assume a: "\<bar>n\<bar> < 2 ^ 53"
  then have "nat \<bar>n\<bar> < 2 ^ 53" by (simp add: nat_less_iff)
  then have "bits (nat \<bar>n\<bar>) \<le> 53" by (rule bits_le)
  then have "bits (nat \<bar>n\<bar>) - 53 = 0" by simp
  then show ?thesis by (simp add: round53_def round_half_even_def)
qed

lemma to_double_small: "\<bar>n\<bar> < 2 ^ 53 \<Longrightarrow> to_double n = Inr n"
proof -
  assume a: "\<bar>n\<bar> < 2 ^ 53"
  have "nat \<bar>n\<bar> < 2 ^ 53" using a by (simp add: nat_less_iff)
  then have "bits (nat \<bar>n\<bar>) \<le> 53" by (rule bits_le)
  then show ?thesis using round53_small [OF a] by (simp add: to_double_def)
qed

lemma to_double_2_53: "to_double 9007199254740992 = Inr 9007199254740992"
proof -
  have b: "bits (nat \<bar>9007199254740992::int\<bar>) = Suc 53"
    by (rule bits_eq) simp_all
  then have r: "round53 9007199254740992 = 9007199254740992"
    by (simp add: round53_def round_half_even_def)
  show ?thesis using r b by (simp add: to_double_def)
qed

lemma to_double_input:
  assumes "0 < input_dim" "input_dim \<le> 2 ^ 51"
  shows "to_double (4 * input_dim) = Inr (4 * input_dim)"
proof (cases "input_dim = 2 ^ 51")
  case True
  then show ?thesis using to_double_2_53 by simp
next
  case False
  then have "\<bar>4 * input_dim\<bar> < 2 ^ 53" using assms by simp
  then show ?thesis by (rule to_double_small)
qed

lemma hidden_1_dim_div:
  assumes "code_dim < input_dim" "0 < code_dim" "input_dim \<le> 2 ^ 51"
  shows "hidden_1_dim input_dim code_dim = Inr ((3 * input_dim + code_dim) div 4)"
proof -
  have q: "to_double (input_dim - code_dim) = Inr (input_dim - code_dim)"
    using assms by (intro to_double_small) simp
  have x: "to_double (4 * input_dim) = Inr (4 * input_dim)"
    using assms by (intro to_double_input) simp_all
  have e: "4 * input_dim - (input_dim - code_dim) = 3 * input_dim + code_dim"
    by simp
  have d: "to_double (3 * input_dim + code_dim) = Inr (3 * input_dim + code_dim)"
    using assms by (intro to_double_small) simp
  have "hidden_1_dim input_dim code_dim = Inr (int_of_double (3 * input_dim + code_dim))"
    unfolding hidden_1_dim_def q and_then_Inr x e d ..
  then show ?thesis
    using assms by (simp add: int_of_double_def)
qed

lemma hidden_2_dim_div:
  assumes "code_dim < input_dim" "0 < code_dim" "input_dim \<le> 2 ^ 51"
  shows "hidden_2_dim input_dim code_dim = Inr ((input_dim + 3 * code_dim) div 4)"
proof -
  have q: "to_double (3 * (input_dim - code_dim)) = Inr (3 * (input_dim - code_dim))"
    using assms by (intro to_double_small) simp
  have x: "to_double (4 * input_dim) = Inr (4 * input_dim)"
    using assms by (intro to_double_input) simp_all
  have e: "4 * input_dim - 3 * (input_dim - code_dim) = input_dim + 3 * code_dim"
    by simp
  have d: "to_double (input_dim + 3 * code_dim) = Inr (input_dim + 3 * code_dim)"
    using assms by (intro to_double_small) simp
  have "hidden_2_dim input_dim code_dim = Inr (int_of_double (input_dim + 3 * code_dim))"
    unfolding hidden_2_dim_def q and_then_Inr x e d ..
  then show ?thesis
    using assms by (simp add: int_of_double_def)
qed

text \<open>
  C10, as the code has it.  For integers \<open>0 < code_dim < input_dim \<le> 2\<^sup>5\<^sup>1\<close> both hidden
  sizes are computed and satisfy \<open>code_dim \<le> hidden_2_dim \<le> hidden_1_dim < input_dim\<close>;
  hence every layer width of the encoder and of the decoder is positive and the widths
  are ordered.  Up to \<open>2\<^sup>5\<^sup>1\<close> the double precision arithmetic of lines 19 and 20 is exact.
\<close>

theorem hidden_dims_ordered:
  assumes "code_dim < input_dim" "0 < code_dim" "input_dim \<le> 2 ^ 51"
  shows "\<exists>hidden_1 hidden_2.
           hidden_1_dim input_dim code_dim = Inr hidden_1
         \<and> hidden_2_dim input_dim code_dim = Inr hidden_2
         \<and> code_dim \<le> hidden_2 \<and> hidden_2 \<le> hidden_1 \<and> hidden_1 < input_dim
         \<and> 0 < hidden_2 \<and> 0 < hidden_1"
proof -
  have "code_dim \<le> (input_dim + 3 * code_dim) div 4"
    "(input_dim + 3 * code_dim) div 4 \<le> (3 * input_dim + code_dim) div 4"
    "(3 * input_dim + code_dim) div 4 < input_dim"
    using assms by linarith+
  then show ?thesis
    using assms hidden_1_dim_div [OF assms] hidden_2_dim_div [OF assms] by auto
qed

theorem hidden_dims_ordered_witness:
  "\<exists>hidden_1 hidden_2.
      hidden_1_dim 784 36 = Inr hidden_1 \<and> hidden_2_dim 784 36 = Inr hidden_2
    \<and> 36 \<le> hidden_2 \<and> hidden_2 \<le> hidden_1 \<and> hidden_1 < 784
    \<and> 0 < hidden_2 \<and> 0 < hidden_1"
  using hidden_dims_ordered [of 36 784] by simp

text \<open>
  Beyond \<open>2\<^sup>5\<^sup>1\<close> the claim fails: for \<open>input_dim = 2\<^sup>5\<^sup>1 + 1\<close> and
  \<open>code_dim = 2\<^sup>5\<^sup>1\<close> the difference \<open>input_dim - 1/4\<close> is no double and rounds to
  \<open>input_dim\<close>, so the first hidden size equals \<open>input_dim\<close>.
\<close>

theorem hidden_dims_ordered_counterexample:
  "hidden_1_dim 2251799813685249 2251799813685248 = Inr 2251799813685249"
proof -
  have "bits (nat \<bar>9007199254740995\<bar>) = Suc 53"
    by (rule bits_eq) simp_all
  then have r: "round53 9007199254740995 = 9007199254740996"
    by (simp add: round53_def round_half_even_def)
  have b: "bits (nat \<bar>9007199254740996::int\<bar>) = Suc 53"
    by (rule bits_eq) simp_all
  then have r': "round53 9007199254740996 = 9007199254740996"
    by (simp add: round53_def round_half_even_def)
  have "to_double 9007199254740995 = Inr 9007199254740996"
    "to_double 9007199254740996 = Inr 9007199254740996"
    using r r' b by (simp_all add: to_double_def)
  then show ?thesis
    by (simp add: hidden_1_dim_def to_double_small int_of_double_def)
qed

section \<open>Construction\<close>

lemma checked_shape_ok:
  assumes "\<forall>d\<in>set dims. 0 \<le> d" "prod_list (map nat dims) \<le> element_limit"
  shows "checked_shape dims = Inr (map nat dims)"
proof -
  have "\<not> (\<exists>d\<in>set dims. d < 0)" using assms(1) by auto
  then show ?thesis using assms(2) by (simp add: checked_shape_def)
qed

lemma checked_shape_not_assert: "checked_shape dims \<noteq> Inl AssertionError"
  by (simp add: checked_shape_def)

lemma elementwise_not_assert: "elementwise f a b \<noteq> Inl AssertionError"
  by (simp add: elementwise_def split: option.splits)

lemma variable_not_assert: "variable room t \<noteq> Inl AssertionError"
  by (simp add: variable_def)

lemma to_double_not_assert: "to_double n \<noteq> Inl AssertionError"
  by (simp add: to_double_def Let_def)

lemma and_then_assert:
  "and_then r f = Inl AssertionError \<longleftrightarrow>
     r = Inl AssertionError \<or> (\<exists>v. r = Inr v \<and> f v = Inl AssertionError)"
  by (cases r) simp_all

lemmas no_assert = checked_shape_not_assert elementwise_not_assert variable_not_assert
  to_double_not_assert

lemma hidden_not_assert:
  "hidden_1_dim input_dim code_dim \<noteq> Inl AssertionError"
  "hidden_2_dim input_dim code_dim \<noteq> Inl AssertionError"
  by (simp_all add: hidden_1_dim_def hidden_2_dim_def and_then_assert no_assert)

lemma random_normal_not_assert:
  "random_normal dims mean stddev noise \<noteq> Inl AssertionError"
  by (simp add: random_normal_def and_then_assert no_assert)

lemma zeros_not_assert: "zeros dims \<noteq> Inl AssertionError"
  by (simp add: zeros_def and_then_assert no_assert)

lemma weights_not_assert:
  "and_then (random_normal dims mean stddev noise) (variable room) \<noteq> Inl AssertionError"
  by (simp add: random_normal_def and_then_assert no_assert)

lemma bias_not_assert:
  "and_then (zeros dims) (variable room) \<noteq> Inl AssertionError"
  by (simp add: zeros_def and_then_assert no_assert)

lemma weights_created:
  assumes "0 \<le> a" "0 \<le> b" "nat a * nat b \<le> element_limit" "nat a * nat b \<le> room"
  shows "\<exists>t. and_then (random_normal [a, b] (scalar m) (scalar sd) g) (variable room) = Inr t
           \<and> shape t = [nat a, nat b]"
proof -
  have "checked_shape [a, b] = Inr [nat a, nat b]"
    using assms checked_shape_ok [of "[a, b]"] by simp
  then show ?thesis
    using assms(4) by (simp add: random_normal_def elementwise_def scalar_def variable_def)
qed

lemma bias_created:
  assumes "0 \<le> a" "nat a \<le> element_limit" "nat a \<le> room"
  shows "\<exists>t. and_then (zeros [a, 1]) (variable room) = Inr t \<and> shape t = [nat a, 1]"
proof -
  have "checked_shape [a, 1] = Inr [nat a, 1]"
    using assms checked_shape_ok [of "[a, 1]"] by simp
  then show ?thesis
    using assms(3) by (simp add: zeros_def variable_def)
qed

lemma within_limit:
  assumes "n < 2 ^ 31"
  shows "2 * n * n \<le> element_limit"
proof -
  have "n < Suc 2147483647" using assms by simp
  then have le: "n \<le> 2147483647" by (simp only: less_Suc_eq_le)
  have "n * n \<le> 2147483647 * 2147483647" using mult_le_mono [OF le le] .
  then have "2 * (n * n) \<le> 2 * (2147483647 * 2147483647)" by (rule mult_le_mono2)
  also have "\<dots> \<le> element_limit" by (simp add: element_limit_def)
  finally show ?thesis by (simp only: mult.assoc)
qed

lemma product_bound:
  fixes a b n :: nat
  assumes "a \<le> 2 * n" "b \<le> n"
  shows "a * b \<le> 2 * n * n"
  using mult_le_mono [OF assms] by simp


lemma init_valid:
  assumes c: "code_dim < input_dim" "0 < code_dim" and b: "input_dim < 2 ^ 31"
    and r: "2 * nat input_dim * nat input_dim \<le> room"
  shows "\<exists>p. init room draw input_dim code_dim = Inr p
           \<and> valid_params p (nat input_dim) (nat ((3 * input_dim + code_dim) div 4))
                (nat ((input_dim + 3 * code_dim) div 4)) (nat code_dim)"
proof -
  define h1 where "h1 = (3 * input_dim + code_dim) div 4"
  define h2 where "h2 = (input_dim + 3 * code_dim) div 4"
  define n where "n = nat input_dim"
  have "(2::int) ^ 31 \<le> 2 ^ 51" by simp
  then have small: "input_dim \<le> 2 ^ 51" using b by linarith
  have hd: "hidden_1_dim input_dim code_dim = Inr h1" "hidden_2_dim input_dim code_dim = Inr h2"
    using hidden_1_dim_div [OF c small] hidden_2_dim_div [OF c small] by (simp_all add: h1_def h2_def)
  have ord: "0 \<le> h1" "0 \<le> h2" "h1 \<le> input_dim" "h2 \<le> input_dim"
    using c unfolding h1_def h2_def by linarith+
  have pos: "0 \<le> input_dim" "0 \<le> code_dim * 2" "0 \<le> code_dim" using c by simp_all
  have nb: "nat h1 \<le> n" "nat h2 \<le> n" "nat code_dim \<le> n" "nat (code_dim * 2) \<le> 2 * n"
    "n \<le> n" "1 \<le> n" "nat h1 \<le> 2 * n" "nat h2 \<le> 2 * n" "n \<le> 2 * n"
    using c ord unfolding n_def by linarith+
  have "n < 2 ^ 31" using b c unfolding n_def by (simp add: nat_less_iff)
  then have lim: "2 * n * n \<le> element_limit" by (rule within_limit)
  have rm: "2 * n * n \<le> room" using r by (simp add: n_def)
  have fit: "x * y \<le> element_limit \<and> x * y \<le> room" if "x \<le> 2 * n" "y \<le> n" for x y
    using product_bound [OF that] lim rm by linarith
  have fit1: "x \<le> element_limit \<and> x \<le> room" if "x \<le> 2 * n" for x
    using fit [OF that nb(6)] nb(6) that lim rm
    by (metis fit mult.right_neutral nb(6) that)
  define w where "w = (\<lambda>name dims.
      and_then (random_normal dims (scalar 0) (scalar 0.05) (draw name)) (variable room))"
  define z where "z = (\<lambda>dims. and_then (zeros dims) (variable room))"
  have W: "\<exists>t. w name [x, y] = Inr t \<and> shape t = [nat x, nat y]"
    if "0 \<le> x" "0 \<le> y" "nat x \<le> 2 * n" "nat y \<le> n" for name x y
    using weights_created [OF that(1,2), of room 0 "0.05" "draw name"] fit [OF that(3,4)]
    by (simp add: w_def)
  have Z: "\<exists>t. z [x, 1] = Inr t \<and> shape t = [nat x, 1]" if "0 \<le> x" "nat x \<le> 2 * n" for x
    using bias_created [OF that(1), of room] fit1 [OF that(2)] by (simp add: z_def)
  obtain eW0 where 1: "w ''enc_W0'' [h1, input_dim] = Inr eW0"
      "shape eW0 = [nat h1, nat input_dim]"
    using W [OF ord(1) pos(1) nb(7)] nb(5) unfolding n_def by blast
  obtain eb0 where 2: "z [h1, 1] = Inr eb0" "shape eb0 = [nat h1, 1]"
    using Z [OF ord(1) nb(7)] by blast
  obtain eW1 where 3: "w ''enc_W1'' [h2, h1] = Inr eW1" "shape eW1 = [nat h2, nat h1]"
    using W [OF ord(2) ord(1) nb(8) nb(1)] by blast
  obtain eb1 where 4: "z [h2, 1] = Inr eb1" "shape eb1 = [nat h2, 1]"
    using Z [OF ord(2) nb(8)] by blast
  obtain eW2 where 5: "w ''enc_W2'' [code_dim * 2, h2] = Inr eW2"
      "shape eW2 = [nat (code_dim * 2), nat h2]"
    using W [OF pos(2) ord(2) nb(4) nb(2)] by blast
  obtain eb2 where 6: "z [code_dim * 2, 1] = Inr eb2" "shape eb2 = [nat (code_dim * 2), 1]"
    using Z [OF pos(2) nb(4)] by blast
  obtain dW0 where 7: "w ''dec_W0'' [h2, code_dim] = Inr dW0"
      "shape dW0 = [nat h2, nat code_dim]"
    using W [OF ord(2) pos(3) nb(8) nb(3)] by blast
  obtain dW1 where 8: "w ''dec_W1'' [h1, h2] = Inr dW1" "shape dW1 = [nat h1, nat h2]"
    using W [OF ord(1) ord(2) nb(7) nb(2)] by blast
  obtain dW2 where 9: "w ''dec_W2'' [input_dim, h1] = Inr dW2"
      "shape dW2 = [nat input_dim, nat h1]"
    using W [OF pos(1) ord(1) _ nb(1)] nb(9) unfolding n_def by blast
  obtain db2 where 10: "z [input_dim, 1] = Inr db2" "shape db2 = [nat input_dim, 1]"
    using Z [OF pos(1)] nb(9) unfolding n_def by blast
  have twice: "nat (code_dim * 2) = nat code_dim * 2"
    using c by (simp add: nat_mult_distrib)
  have "init room draw input_dim code_dim =
      Inr \<lparr>enc_W0 = eW0, enc_b0 = eb0, enc_W1 = eW1, enc_b1 = eb1,
           enc_W2 = eW2, enc_b2 = eb2, dec_W0 = dW0, dec_b0 = eb1,
           dec_W1 = dW1, dec_b1 = eb0, dec_W2 = dW2, dec_b2 = db2\<rparr>"
    using c hd 1 2 3 4 5 6 7 8 9 10 unfolding w_def z_def by (simp add: init_def Let_def)
  moreover have "valid_params \<lparr>enc_W0 = eW0, enc_b0 = eb0, enc_W1 = eW1, enc_b1 = eb1,
           enc_W2 = eW2, enc_b2 = eb2, dec_W0 = dW0, dec_b0 = eb1,
           dec_W1 = dW1, dec_b1 = eb0, dec_W2 = dW2, dec_b2 = db2\<rparr>
        (nat input_dim) (nat h1) (nat h2) (nat code_dim)"
    using 1 2 3 4 5 6 7 8 9 10 by (simp add: valid_params_def twice)
  ultimately show ?thesis unfolding h1_def h2_def by blast
qed

lemma four_times_div: "4 * (k div 4) = k \<longleftrightarrow> 4 dvd k" for k :: int
  by presburger

lemma exact_iff_1:
  "real_of_int ((3 * input_dim + code_dim) div 4) = spec_hidden_1 input_dim code_dim
     \<longleftrightarrow> 4 dvd (input_dim - code_dim)"
proof -
  let ?k = "3 * input_dim + code_dim"
  have "real_of_int (?k div 4) = spec_hidden_1 input_dim code_dim
       \<longleftrightarrow> real_of_int (4 * (?k div 4)) = real_of_int ?k"
    by (simp add: spec_hidden_1_def field_simps)
  also have "\<dots> \<longleftrightarrow> 4 * (?k div 4) = ?k"
    by (simp only: of_int_eq_iff)
  also have "\<dots> \<longleftrightarrow> 4 dvd ?k"
    by (rule four_times_div)
  also have "\<dots> \<longleftrightarrow> 4 dvd (input_dim - code_dim)"
    by presburger
  finally show ?thesis .
qed

lemma exact_iff_2:
  "real_of_int ((input_dim + 3 * code_dim) div 4) = spec_hidden_2 input_dim code_dim
     \<longleftrightarrow> 4 dvd (input_dim - code_dim)"
proof -
  let ?k = "input_dim + 3 * code_dim"
  have "real_of_int (?k div 4) = spec_hidden_2 input_dim code_dim
       \<longleftrightarrow> real_of_int (4 * (?k div 4)) = real_of_int ?k"
    by (simp add: spec_hidden_2_def field_simps)
  also have "\<dots> \<longleftrightarrow> 4 * (?k div 4) = ?k"
    by (simp only: of_int_eq_iff)
  also have "\<dots> \<longleftrightarrow> 4 dvd ?k"
    by (rule four_times_div)
  also have "\<dots> \<longleftrightarrow> 4 dvd (input_dim - code_dim)"
    by presburger
  finally show ?thesis .
qed

lemma truncated_1:
  "(3 * input_dim + code_dim) div 4 = \<lfloor>spec_hidden_1 input_dim code_dim\<rfloor>"
proof -
  have "spec_hidden_1 input_dim code_dim
      = real_of_int (3 * input_dim + code_dim) / real_of_int 4"
    by (simp add: spec_hidden_1_def field_simps)
  then show ?thesis by (simp only: floor_divide_of_int_eq)
qed

lemma truncated_2:
  "(input_dim + 3 * code_dim) div 4 = \<lfloor>spec_hidden_2 input_dim code_dim\<rfloor>"
proof -
  have "spec_hidden_2 input_dim code_dim
      = real_of_int (input_dim + 3 * code_dim) / real_of_int 4"
    by (simp add: spec_hidden_2_def field_simps)
  then show ?thesis by (simp only: floor_divide_of_int_eq)
qed

text \<open>
  C4, as the code has it.  For \<open>0 < code_dim < input_dim < 2\<^sup>3\<^sup>1\<close>, on a machine with
  room for a tensor of \<open>2 * input_dim\<^sup>2\<close> elements, construction succeeds and yields twelve
  parameters whose shapes are those of \<open>valid_params\<close> for the two hidden sizes: the
  interpolation formulas truncated to integers.  A hidden size equals its untruncated
  formula exactly when 4 divides \<open>input_dim - code_dim\<close>.  The last encoder layer has
  \<open>2 * code_dim\<close> rows, its output width.
\<close>

theorem init_shapes_truncated:
  assumes "code_dim < input_dim" "0 < code_dim" "input_dim < 2 ^ 31"
    and "2 * nat input_dim * nat input_dim \<le> room"
  shows "\<exists>p hidden_1 hidden_2.
           hidden_1_dim input_dim code_dim = Inr hidden_1
         \<and> hidden_2_dim input_dim code_dim = Inr hidden_2
         \<and> init room draw input_dim code_dim = Inr p
         \<and> length (param_shapes p) = 12
         \<and> valid_params p (nat input_dim) (nat hidden_1) (nat hidden_2) (nat code_dim)
         \<and> hd (shape (enc_W2 p)) = 2 * nat code_dim
         \<and> hidden_1 = \<lfloor>spec_hidden_1 input_dim code_dim\<rfloor>
         \<and> hidden_2 = \<lfloor>spec_hidden_2 input_dim code_dim\<rfloor>
         \<and> (real_of_int hidden_1 = spec_hidden_1 input_dim code_dim
              \<longleftrightarrow> 4 dvd (input_dim - code_dim))
         \<and> (real_of_int hidden_2 = spec_hidden_2 input_dim code_dim
              \<longleftrightarrow> 4 dvd (input_dim - code_dim))"
proof -
  let ?h1 = "(3 * input_dim + code_dim) div 4" and ?h2 = "(input_dim + 3 * code_dim) div 4"
  have "(2::int) ^ 31 \<le> 2 ^ 51" by simp
  then have small: "input_dim \<le> 2 ^ 51" using assms(3) by linarith
  have h: "hidden_1_dim input_dim code_dim = Inr ?h1" "hidden_2_dim input_dim code_dim = Inr ?h2"
    using hidden_1_dim_div [OF assms(1,2) small] hidden_2_dim_div [OF assms(1,2) small]
    by simp_all
  obtain p where p: "init room draw input_dim code_dim = Inr p"
      "valid_params p (nat input_dim) (nat ?h1) (nat ?h2) (nat code_dim)"
    using init_valid [OF assms] by blast
  have w: "hd (shape (enc_W2 p)) = 2 * nat code_dim"
    using p(2) by (simp add: valid_params_def)
  have l: "length (param_shapes p) = 12"
    by (simp add: param_shapes_def)
  show ?thesis
    using h p w l exact_iff_1 [of input_dim code_dim] exact_iff_2 [of input_dim code_dim]
      truncated_1 [of input_dim code_dim] truncated_2 [of input_dim code_dim]
    by blast
qed

theorem init_shapes_truncated_witness:
  "\<exists>p hidden_1 hidden_2.
      hidden_1_dim 5 2 = Inr hidden_1
    \<and> hidden_2_dim 5 2 = Inr hidden_2
    \<and> init 50 no_noise 5 2 = Inr p
    \<and> length (param_shapes p) = 12
    \<and> valid_params p (nat 5) (nat hidden_1) (nat hidden_2) (nat 2)
    \<and> hd (shape (enc_W2 p)) = 2 * nat 2
    \<and> hidden_1 = \<lfloor>spec_hidden_1 5 2\<rfloor>
    \<and> hidden_2 = \<lfloor>spec_hidden_2 5 2\<rfloor>
    \<and> (real_of_int hidden_1 = spec_hidden_1 5 2) = (4 dvd ((5::int) - 2))
    \<and> (real_of_int hidden_2 = spec_hidden_2 5 2) = (4 dvd ((5::int) - 2))"
proof -
  have h: "(2::int) < 5" "(0::int) < 2" "(5::int) < 2 ^ 31" "2 * nat 5 * nat 5 \<le> (50::nat)"
    by simp_all
  from init_shapes_truncated [OF h, of no_noise] show ?thesis by blast
qed

text \<open>
  The claim as the specification states it fails at \<open>input_dim = 5\<close>, \<open>code_dim = 2\<close>:
  the constructed hidden sizes are 4 and 2, the formulas give \<open>17/4\<close> and \<open>11/4\<close>.
  It also fails for sizes the library cannot hold: at \<open>input_dim = 2\<^sup>4\<^sup>0\<close>,
  \<open>code_dim = 1\<close> the first weight matrix would have more than \<open>2\<^sup>6\<^sup>3 - 1\<close> elements and
  construction raises.
\<close>

theorem init_shapes_exact_counterexample:
  "constructed_shapes 50 no_noise 5 2 =
     Inr [[4, 5], [4, 1], [2, 4], [2, 1], [4, 2], [4, 1],
          [2, 2], [2, 1], [4, 2], [4, 1], [5, 4], [5, 1]]
   \<and> real 4 \<noteq> spec_hidden_1 5 2 \<and> real 2 \<noteq> spec_hidden_2 5 2
   \<and> init 50 no_noise 1099511627776 1 = Inl InvalidArgumentError"
proof -
  have h: "hidden_1_dim 5 2 = Inr 4" "hidden_2_dim 5 2 = Inr 2"
    using hidden_1_dim_div [of 2 5] hidden_2_dim_div [of 2 5] by simp_all
  have g: "hidden_1_dim 1099511627776 1 = Inr 824633720832"
    "hidden_2_dim 1099511627776 1 = Inr 274877906944"
    using hidden_1_dim_div [of 1 1099511627776] hidden_2_dim_div [of 1 1099511627776]
    by simp_all
  have "init 50 no_noise 1099511627776 1 = Inl InvalidArgumentError"
    by (simp add: init_def g Let_def random_normal_def checked_shape_def element_limit_def)
  then show ?thesis
    by (simp add: constructed_shapes_def init_def h Let_def random_normal_def zeros_def
        checked_shape_def element_limit_def variable_def elementwise_def scalar_def
        param_shapes_def spec_hidden_1_def spec_hidden_2_def)
qed

text \<open>
  C9.  Construction fails with the assertion error exactly when
  \<open>code_dim \<ge> input_dim\<close>; the assertion is the first statement, so in that case the
  result is the error and no parameter is built.
\<close>

theorem init_assertion:
  "init room draw input_dim code_dim = Inl AssertionError \<longleftrightarrow> input_dim \<le> code_dim"
  by (auto simp add: init_def Let_def and_then_assert hidden_not_assert
      random_normal_not_assert zeros_not_assert variable_not_assert)

theorem init_assertion_witness:
  "init 50 no_noise 36 36 = Inl AssertionError \<and> init 50 no_noise 5 2 \<noteq> Inl AssertionError"
  using init_assertion [of 50 no_noise 36 36] init_assertion [of 50 no_noise 5 2] by simp

section \<open>Encoder, decoder and sampler\<close>

lemma matmul_plain:
  "shape a = [m, k] \<Longrightarrow> shape b = [k, n] \<Longrightarrow>
     \<exists>t. matmul a b False = Inr t \<and> shape t = [m, n]"
  by (simp add: matmul_def)

lemma matmul_transposed:
  "shape a = [m, k] \<Longrightarrow> shape b = [n, k] \<Longrightarrow>
     \<exists>t. matmul a b True = Inr t \<and> shape t = [m, n]"
  by (simp add: matmul_def transpose_t_def)

lemma add_bias:
  "shape a = [h, b] \<Longrightarrow> shape bias = [h, 1] \<Longrightarrow>
     \<exists>t. elementwise f a bias = Inr t \<and> shape t = [h, b]"
  by (simp add: elementwise_def broadcast_shape_def)

lemma shape_tmap [simp]: "shape (tmap f t) = shape t"
  by (simp add: tmap_def)

lemma cell_tmap [simp]: "cell (tmap f t) idx = f (cell t idx)"
  by (simp add: tmap_def)

lemma shape_transpose_t [simp]: "shape (transpose_t t) = rev (shape t)"
  by (simp add: transpose_t_def)

lemma layer:
  assumes "shape w = [h, k]" "shape bias = [h, 1]" "shape x = [k, b]"
  shows "\<exists>m a. matmul w x False = Inr m \<and> elementwise (+) m bias = Inr a \<and> shape a = [h, b]"
  using matmul_plain [OF assms(1,3)] add_bias [OF _ assms(2)] by metis

lemma first_layer:
  assumes "shape w = [h, k]" "shape bias = [h, 1]" "shape x = [b, k]"
  shows "\<exists>m a. matmul w x True = Inr m \<and> elementwise (+) m bias = Inr a \<and> shape a = [h, b]"
  using matmul_transposed [OF assms(1,3)] add_bias [OF _ assms(2)] by metis

lemma encoded_distribution_shape:
  assumes v: "valid_params p input_dim hidden_1 hidden_2 code_dim"
    and i: "shape inputs = [batch, input_dim]"
  shows "\<exists>e. encoded_distribution p inputs = Inr e \<and> shape e = [batch, code_dim * 2]"
proof -
  from v have s: "shape (enc_W0 p) = [hidden_1, input_dim]" "shape (enc_b0 p) = [hidden_1, 1]"
    "shape (enc_W1 p) = [hidden_2, hidden_1]" "shape (enc_b1 p) = [hidden_2, 1]"
    "shape (enc_W2 p) = [code_dim * 2, hidden_2]" "shape (enc_b2 p) = [code_dim * 2, 1]"
    by (simp_all add: valid_params_def)
  obtain m0 a0 where 0: "matmul (enc_W0 p) inputs True = Inr m0"
      "elementwise (+) m0 (enc_b0 p) = Inr a0" "shape a0 = [hidden_1, batch]"
    using first_layer [OF s(1,2) i] by blast
  have "shape (tmap leaky_relu a0) = [hidden_1, batch]" using 0 by simp
  then obtain m1 a1 where 1: "matmul (enc_W1 p) (tmap leaky_relu a0) False = Inr m1"
      "elementwise (+) m1 (enc_b1 p) = Inr a1" "shape a1 = [hidden_2, batch]"
    using layer [OF s(3,4)] by blast
  have "shape (tmap leaky_relu a1) = [hidden_2, batch]" using 1 by simp
  then obtain m2 a2 where 2: "matmul (enc_W2 p) (tmap leaky_relu a1) False = Inr m2"
      "elementwise (+) m2 (enc_b2 p) = Inr a2" "shape a2 = [code_dim * 2, batch]"
    using layer [OF s(5,6)] by blast
  have "encoded_distribution p inputs = Inr (transpose_t a2)"
    using 0 1 2 by (simp add: encoded_distribution_def Let_def)
  moreover have "shape (transpose_t a2) = [batch, code_dim * 2]" using 2 by simp
  ultimately show ?thesis by blast
qed

lemma half_width: "nat (py_int (real (c * 2) / 2)) = c" "nat (py_int (real c)) = c"
  by (simp_all add: py_int_def)

lemma encode_ok:
  assumes v: "valid_params p input_dim hidden_1 hidden_2 code_dim"
    and i: "shape inputs = [batch, input_dim]"
  shows "\<exists>e mean stddev.
           encoded_distribution p inputs = Inr e \<and> shape e = [batch, 2 * code_dim]
         \<and> encode p inputs = Inr (mean, stddev)
         \<and> shape mean = [batch, code_dim] \<and> shape stddev = [batch, code_dim]
         \<and> (\<forall>r c. cell mean [r, c] = cell e [r, c])
         \<and> (\<forall>r c. cell stddev [r, c] = \<bar>cell e [r, c + code_dim]\<bar>)
         \<and> (\<forall>idx. 0 \<le> cell stddev idx)"
proof -
  obtain e where e: "encoded_distribution p inputs = Inr e" "shape e = [batch, code_dim * 2]"
    using encoded_distribution_shape [OF v i] by blast
  let ?mean = "\<lparr>shape = [batch, code_dim], cell = cell e\<rparr>"
  let ?tail = "\<lparr>shape = [batch, code_dim],
       cell = (\<lambda>idx. case idx of i # j # others \<Rightarrow> cell e (i # (j + code_dim) # others)
                              | _ \<Rightarrow> cell e idx)\<rparr>"
  have "encode p inputs =
      and_then (cols_upto e code_dim) (\<lambda>mean.
      and_then (cols_from e code_dim) (\<lambda>tail. Inr (mean, tmap abs tail)))"
    using e by (simp add: encode_def dim_def Let_def half_width)
  then have "encode p inputs = Inr (?mean, tmap abs ?tail)"
    using e by (simp add: cols_upto_def cols_from_def)
  then show ?thesis using e by (intro exI [of _ e] exI [of _ ?mean] exI [of _ "tmap abs ?tail"]) (simp add: mult.commute)
qed








lemma same_shape:
  "shape a = [r, c] \<Longrightarrow> shape b = [r, c] \<Longrightarrow>
     \<exists>t. elementwise f a b = Inr t \<and> shape t = [r, c]"
  by (simp add: elementwise_def broadcast_shape_def)

lemma random_normal_same_shape:
  assumes "shape mean = [r, c]" "shape stddev = [r, c]" "r * c \<le> element_limit"
  shows "\<exists>t. random_normal [int r, int c] mean stddev noise = Inr t \<and> shape t = [r, c]"
proof -
  let ?n = "\<lparr>shape = [r, c], cell = noise\<rparr>"
  have k: "checked_shape [int r, int c] = Inr [r, c]"
    using assms(3) checked_shape_ok [of "[int r, int c]"] by simp
  have "shape ?n = [r, c]" by simp
  then obtain mul where m: "elementwise (*) ?n stddev = Inr mul" "shape mul = [r, c]"
    using same_shape [OF _ assms(2)] by blast
  obtain t where "elementwise (+) mul mean = Inr t" "shape t = [r, c]"
    using same_shape [OF m(2) assms(1)] by blast
  then show ?thesis using m k by (simp add: random_normal_def)
qed

lemma sample_encoding_ok:
  assumes "length (shape mean) = 2" "prod_list (shape mean) \<le> element_limit"
  shows "((\<exists>e. sample_encoding noise mean stddev = Inl e) \<longleftrightarrow> shape mean \<noteq> shape stddev)
       \<and> (sample_encoding noise mean stddev = Inl AssertionError
             \<longleftrightarrow> shape mean \<noteq> shape stddev)
       \<and> (shape mean = shape stddev \<longrightarrow>
            (\<exists>t. sample_encoding noise mean stddev = Inr t \<and> shape t = shape mean))"
proof (cases "shape mean = shape stddev")
  case False
  then show ?thesis by (simp add: sample_encoding_def)
next
  case True
  from assms(1) obtain r c where rc: "shape mean = [r, c]"
    by (cases "shape mean") (auto simp add: length_Suc_conv)
  then have sd: "shape stddev = [r, c]" using True by simp
  have "r * c \<le> element_limit" using assms(2) rc by simp
  then obtain t where t: "random_normal [int r, int c] mean stddev noise = Inr t"
      "shape t = [r, c]"
    using random_normal_same_shape [OF rc sd] by blast
  have "dim mean 0 = Inr r" "dim mean 1 = Inr c"
    using rc by (simp_all add: dim_def)
  then have "sample_encoding noise mean stddev = Inr t"
    using True t by (simp add: sample_encoding_def)
  then show ?thesis using True rc t by simp
qed

text \<open>
  C7, as the code has it.  For a mean that is a batch of code vectors (a tensor of rank
  2, of at most \<open>2\<^sup>6\<^sup>3 - 1\<close> elements as every tensor the library holds),
  \<open>sample_encoding\<close> fails exactly when the shapes of mean and stddev differ, and the
  failure is the assertion on the shapes; when the shapes agree it returns a tensor of
  that shape.
\<close>

theorem sample_encoding_shapes:
  assumes "length (shape mean) = 2" "prod_list (shape mean) \<le> element_limit"
  shows "((\<exists>e. sample_encoding noise mean stddev = Inl e) \<longleftrightarrow> shape mean \<noteq> shape stddev)
       \<and> (sample_encoding noise mean stddev = Inl AssertionError
             \<longleftrightarrow> shape mean \<noteq> shape stddev)
       \<and> (shape mean = shape stddev \<longrightarrow>
            (\<exists>t. sample_encoding noise mean stddev = Inr t \<and> shape t = shape mean))"
  using assms by (rule sample_encoding_ok)

theorem sample_encoding_shapes_witness:
  "sample_encoding zero_draw tiny_codes tiny_inputs = Inl AssertionError
   \<and> (\<exists>t. sample_encoding zero_draw tiny_codes tiny_codes = Inr t \<and> shape t = [3, 2])"
proof -
  have r: "length (shape tiny_codes) = 2" "prod_list (shape tiny_codes) \<le> element_limit"
    by (simp_all add: tiny_codes_def filled_def element_limit_def)
  have s: "shape tiny_codes = [3, 2]" "shape tiny_codes \<noteq> shape tiny_inputs"
    by (simp_all add: tiny_codes_def tiny_inputs_def filled_def)
  from sample_encoding_shapes [OF r, of zero_draw tiny_inputs]
    sample_encoding_shapes [OF r, of zero_draw tiny_codes] s
  show ?thesis by simp
qed

text \<open>
  Without the restriction to rank 2 the claim fails: on a mean and a stddev of the same
  shape \<open>(3)\<close> the assertion passes and \<^verbatim>\<open>mean.shape[1]\<close> raises an
  \<^verbatim>\<open>IndexError\<close>, so the sampler fails although the shapes match.
\<close>

theorem sample_encoding_shapes_counterexample:
  "shape (filled [3] 0) = shape (filled [3] 1)
   \<and> sample_encoding zero_draw (filled [3] 0) (filled [3] 1) = Inl IndexError"
  by (simp add: sample_encoding_def dim_def filled_def)

section \<open>Batches of an epoch\<close>

lemma bits_lower: "0 < n \<Longrightarrow> 2 ^ (bits n - 1) \<le> n"
proof (induction n rule: less_induct)
  case (less n)
  show ?case
  proof (cases "n div 2 = 0")
    case True
    then have "n = 1" using less.prems by (simp add: div_eq_0_iff) 
    then show ?thesis by (simp add: bits.simps)
  next
    case False
    then have p: "0 < n div 2" by simp
    have "n div 2 < n" using less.prems by simp
    then have ih: "2 ^ (bits (n div 2) - 1) \<le> n div 2" using less.IH p by blast
    have b: "bits n = Suc (bits (n div 2))" using less.prems by (subst bits.simps) simp
    have "0 < bits (n div 2)" using p by (subst bits.simps) simp
    then have "2 ^ (bits n - 1) = 2 * 2 ^ (bits (n div 2) - 1)"
      using b by (cases "bits (n div 2)") simp_all
    also have "\<dots> \<le> 2 * (n div 2)" using ih by simp
    also have "\<dots> \<le> n" by simp
    finally show ?thesis .
  qed
qed

lemma bits_upper: "n < 2 ^ bits n"
proof (induction n rule: less_induct)
  case (less n)
  show ?case
  proof (cases "n = 0")
    case True
    then show ?thesis by simp
  next
    case False
    then have "n div 2 < n" by simp
    then have ih: "n div 2 < 2 ^ bits (n div 2)" using less.IH by blast
    have b: "bits n = Suc (bits (n div 2))" using False by (subst bits.simps) simp
    have "n < 2 * (n div 2) + 2" by presburger
    also have "\<dots> \<le> 2 * 2 ^ bits (n div 2)" using ih by simp
    finally show ?thesis using b by simp
  qed
qed


lemma bits_pos: "0 < n \<Longrightarrow> 0 < bits n"
  by (subst bits.simps) simp

lemma scaled_first:
  assumes "0 < p" "0 < q"
  shows "case scaled p q (int (bits p) - int (bits q) - 53) of (a, b) \<Rightarrow> 2 ^ 52 * b \<le> a"
proof (cases "0 \<le> int (bits p) - int (bits q) - 53")
  case True
  define d where "d = nat (int (bits p) - int (bits q) - 53)"
  have e: "52 + bits q + d = bits p - 1" using True by (simp add: d_def)
  have "2 ^ 52 * (q * 2 ^ d) \<le> 2 ^ 52 * (2 ^ bits q * 2 ^ d)"
    using bits_upper [of q] by simp
  also have "\<dots> = 2 ^ (52 + bits q + d)" by (simp add: power_add)
  also have "\<dots> \<le> p" unfolding e using bits_lower [OF assms(1)] .
  finally show ?thesis using True by (simp add: scaled_def d_def)
next
  case False
  define d where "d = nat (- (int (bits p) - int (bits q) - 53))"
  have e: "bits p - 1 + d = 52 + bits q" using False bits_pos [OF assms(1)] by (simp add: d_def)
  have "2 ^ 52 * q \<le> 2 ^ 52 * 2 ^ bits q" using bits_upper [of q] by simp
  also have "\<dots> = 2 ^ (bits p - 1 + d)" unfolding e by (simp add: power_add)
  also have "\<dots> = 2 ^ (bits p - 1) * 2 ^ d" by (simp add: power_add)
  also have "\<dots> \<le> p * 2 ^ d" using bits_lower [OF assms(1)] by simp
  finally show ?thesis using False by (simp add: scaled_def d_def)
qed

lemma scaled_next:
  assumes "case scaled p q e of (a, b) \<Rightarrow> 2 ^ 53 * b \<le> a"
  shows "case scaled p q (e + 1) of (a, b) \<Rightarrow> 2 ^ 52 * b \<le> a"
proof -
  consider "0 \<le> e" | "e = - 1" | "e < - 1" by linarith
  then show ?thesis
  proof cases
    case 1
    then have "nat (e + 1) = Suc (nat e)" by simp
    then show ?thesis using assms 1 by (simp add: scaled_def)
  next
    case 2
    then show ?thesis using assms by (simp add: scaled_def)
  next
    case 3
    then have "nat (- e) = Suc (nat (- (e + 1)))" by simp
    then show ?thesis using assms 3 by (simp add: scaled_def)
  qed
qed

lemma normal_exponent_lower:
  assumes "0 < p" "0 < q"
  shows "case scaled p q (normal_exponent p q) of (a, b) \<Rightarrow> 2 ^ 52 * b \<le> a"
proof -
  let ?e0 = "int (bits p) - int (bits q) - 53"
  obtain a b where ab: "scaled p q ?e0 = (a, b)" by (cases "scaled p q ?e0") auto
  show ?thesis
  proof (cases "a < 2 ^ 53 * b")
    case True
    then have "normal_exponent p q = ?e0" using ab by (simp add: normal_exponent_def)
    then show ?thesis using scaled_first [OF assms] by simp
  next
    case False
    then have n: "normal_exponent p q = ?e0 + 1" using ab by (simp add: normal_exponent_def)
    have "case scaled p q ?e0 of (a, b) \<Rightarrow> 2 ^ 53 * b \<le> a" using False ab by simp
    then show ?thesis unfolding n by (rule scaled_next)
  qed
qed


lemma round_ratio_cases:
  "round_ratio (a, b) = a div b
     \<or> (round_ratio (a, b) = a div b + 1 \<and> b \<le> 2 * (a mod b))"
  by (simp add: round_ratio_def Let_def)

lemma round_ratio_truncated:
  assumes q: "0 < q" and f: "\<not> 2 ^ Suc s * (q - p mod q) \<le> q"
  shows "round_ratio (p * 2 ^ s, q) div 2 ^ s = p div q"
proof -
  define K where "K = p div q"
  define R where "R = p mod q"
  define t where "t = (R * 2 ^ s) div q"
  define r where "r = (R * 2 ^ s) mod q"
  have Rq: "R < q" using q by (simp add: R_def)
  have p: "p = K * q + R" by (simp add: K_def R_def)
  have "p * 2 ^ s = R * 2 ^ s + (K * 2 ^ s) * q" by (simp add: p algebra_simps)
  then have dv: "(p * 2 ^ s) div q = K * 2 ^ s + t" and md: "(p * 2 ^ s) mod q = r"
    using q by (simp_all add: t_def r_def)
  have tr: "R * 2 ^ s = t * q + r" by (simp add: t_def r_def)
  have "t * q \<le> R * 2 ^ s" using tr by simp
  also have "\<dots> < q * 2 ^ s" using Rq by simp
  finally have "t * q < 2 ^ s * q" by (simp add: mult.commute)
  then have tl: "t < 2 ^ s" by simp
  have up: "Suc t < 2 ^ s" if "q \<le> 2 * r"
  proof (rule ccontr)
    assume "\<not> Suc t < 2 ^ s"
    then have te: "Suc t = 2 ^ s" using tl by simp
    have "R * 2 ^ s + q = Suc t * q + r" using tr by simp
    then have "R * 2 ^ s + q = 2 ^ s * q + r" using te by simp
    moreover have "2 ^ s * q = 2 ^ s * (q - R) + 2 ^ s * R"
      using Rq by (simp add: algebra_simps flip: distrib_left)
    ultimately have "q = 2 ^ s * (q - R) + r" by (simp add: mult.commute)
    then have "2 * q = 2 ^ Suc s * (q - R) + 2 * r" by simp
    then have "2 ^ Suc s * (q - R) \<le> q" using that by linarith
    then show False using f by (simp add: R_def)
  qed
  consider "round_ratio (p * 2 ^ s, q) = K * 2 ^ s + t"
    | "round_ratio (p * 2 ^ s, q) = K * 2 ^ s + Suc t" "q \<le> 2 * r"
    using round_ratio_cases [of "p * 2 ^ s" q] dv md by auto
  moreover have "(K * 2 ^ s + x) div 2 ^ s = K" if "x < 2 ^ s" for x
    using that by simp
  ultimately show ?thesis
    using tl up unfolding K_def by metis
qed


lemma scaled_nonpos: "e \<le> 0 \<Longrightarrow> scaled p q e = (p * 2 ^ nat (- e), q)"
  by (cases "e = 0") (simp_all add: scaled_def)

lemma int_of_quotient_exact:
  assumes q: "0 < q" and small: "p < 2 ^ 53"
  shows "int_of_quotient p q = Inr (p div q)"
proof (cases "p = 0")
  case True
  then show ?thesis by (simp add: int_of_quotient_def)
next
  case False
  then have p: "0 < p" by simp
  define ne where "ne = normal_exponent p q"
  define e where "e = exponent p q"
  define s where "s = nat (- e)"
  have e_max: "e = max ne (- 1074)" by (simp add: e_def ne_def exponent_def)
  have L: "case scaled p q ne of (a, b) \<Rightarrow> 2 ^ 52 * b \<le> a"
    unfolding ne_def by (rule normal_exponent_lower [OF p q])
  have ne0: "ne \<le> 0"
  proof (rule ccontr)
    assume "\<not> ne \<le> 0"
    then have pos: "0 < ne" by simp
    then have "2 ^ 52 * (q * 2 ^ nat ne) \<le> p" using L by (simp add: scaled_def)
    moreover have "(2::nat) ^ 1 \<le> 2 ^ nat ne" using pos by (intro power_increasing) simp_all
    then have "2 ^ 52 * (1 * 2) \<le> 2 ^ 52 * (q * 2 ^ nat ne)"
      using q by (intro mult_le_mono) simp_all
    ultimately show False using small by simp
  qed
  then have e0: "e \<le> 0" using e_max by simp
  define s1 where "s1 = nat (- ne)"
  have L1: "2 ^ 52 * q \<le> p * 2 ^ s1"
    using L scaled_nonpos [OF ne0, of p q] by (simp add: s1_def)
  have s_le: "s \<le> 1074" "s = min s1 1074" using e_max ne0 by (simp_all add: s_def s1_def)
  have F: "\<not> 2 ^ Suc s * (q - p mod q) \<le> q"
  proof (cases "q \<le> p")
    case True
    have low: "2 ^ 52 * q \<le> p * 2 ^ s"
    proof (cases "s1 \<le> 1074")
      case True
      then show ?thesis using L1 s_le by simp
    next
      case False
      then have "s = 1074" using s_le by simp
      moreover have "(2::nat) ^ 52 \<le> 2 ^ 1074" by (intro power_increasing) simp_all
      then have "2 ^ 52 * q \<le> 2 ^ 1074 * p" using \<open>q \<le> p\<close> by (intro mult_le_mono)
      ultimately show ?thesis by (simp add: mult.commute)
    qed
    define c :: nat where "c = 2 ^ 52"
    have c: "0 < c" "2 ^ 53 = 2 * c" by (simp_all add: c_def)
    have "c * q \<le> p * 2 ^ s" using low by (simp add: c_def)
    also have "\<dots> < (2 * c) * 2 ^ s" using small unfolding c(2) by simp
    also have "\<dots> = c * 2 ^ Suc s" by simp
    finally have "q < 2 ^ Suc s" using c(1) by (simp only: mult_less_cancel1)
    moreover have "0 < q - p mod q" using q by simp
    then have "2 ^ Suc s * 1 \<le> 2 ^ Suc s * (q - p mod q)"
      by (intro mult_le_mono) simp_all
    then have "2 ^ Suc s \<le> 2 ^ Suc s * (q - p mod q)" by (simp only: mult_1_right)
    ultimately show ?thesis by linarith
  next
    case False
    then have pq: "p < q" by simp
    then have md: "p mod q = p" by simp
    have "2 ^ 52 * q \<le> p * 2 ^ s1" by (rule L1)
    also have "\<dots> < q * 2 ^ s1" using pq by simp
    finally have "(2::nat) ^ 52 < 2 ^ s1" using q by (simp add: mult.commute)
    then have "52 < s1" by (rule power_less_imp_less_exp [rotated]) simp
    then have s53: "53 \<le> s" using s_le by simp
    show ?thesis
    proof
      assume a: "2 ^ Suc s * (q - p mod q) \<le> q"
      have "(2::nat) ^ 54 \<le> 2 ^ Suc s" using s53 by (intro power_increasing) simp_all
      then have "2 ^ 54 * (q - p) \<le> 2 ^ Suc s * (q - p)" by (rule mult_le_mono1)
      also have "\<dots> \<le> q" using a unfolding md .
      finally have "2 ^ 54 * (q - p) \<le> q" .
      then have "18014398509481984 * (q - p) \<le> q" by simp
      moreover have "p < 9007199254740992" using small by simp
      ultimately show False using pq by linarith
    qed
  qed
  have m: "round_ratio (scaled p q e) div 2 ^ s = p div q"
    using round_ratio_truncated [OF q F] scaled_nonpos [OF e0, of p q] by (simp add: s_def)
  show ?thesis
  proof (cases "e = 0")
    case True
    then have s0: "s = 0" by (simp add: s_def)
    then have v: "round_ratio (scaled p q e) = p div q" using m by simp
    have "p div q \<le> p" by simp
    then have "p div q < 2 ^ 53" using small by (rule le_less_trans)
    then have "bits (p div q) \<le> 53" by (rule bits_le)
    then show ?thesis
      using False \<open>p \<noteq> 0\<close> True v unfolding int_of_quotient_def e_def [symmetric]
      by (simp add: Let_def)
  next
    case False
    then have "e < 0" using e0 by simp
    then show ?thesis
      using \<open>p \<noteq> 0\<close> m unfolding int_of_quotient_def e_def [symmetric] s_def
      by (simp add: Let_def)
  qed
qed

lemma num_batches_div:
  assumes "shape inputs = n # rest" "n < 2 ^ 53" "0 < batch_size"
  shows "num_batches inputs batch_size = Inr (n div nat batch_size)"
proof -
  have "int_of_quotient n (nat \<bar>batch_size\<bar>) = Inr (n div nat \<bar>batch_size\<bar>)"
    using assms by (intro int_of_quotient_exact) simp_all
  then show ?thesis using assms by (simp add: num_batches_def dim_def)
qed






lemma loss_gap_scalar:
  "loss_gap_exceeds (scalar t) (scalar v) = Inr (t / 32 < v - t)"
  by (simp add: loss_gap_exceeds_def elementwise_def scalar_def truth_def bindex_def)





section \<open>Early stopping\<close>

lemma epochs_step:
  assumes "run_epoch env inputs val_inputs batch_size s = Inr (s', tloss, vloss)"
    and "stop_check e tloss vloss = Inr stop"
  shows "epochs env inputs val_inputs batch_size (Suc k) e s printed =
           (if stop then Inr (StoppedEarly, s', printed @ [(e, tloss, vloss)])
            else epochs env inputs val_inputs batch_size k (Suc e) s' (printed @ [(e, tloss, vloss)]))"
  using assms by (simp add: Let_def)

lemma epochs_completed:
  assumes "epochs env inputs val_inputs batch_size (Suc j) e s printed
             = Inr (Completed, s1, printed1)"
  shows "\<exists>s' tloss vloss. run_epoch env inputs val_inputs batch_size s = Inr (s', tloss, vloss)
           \<and> stop_check e tloss vloss = Inr False
           \<and> epochs env inputs val_inputs batch_size j (Suc e) s' (printed @ [(e, tloss, vloss)])
               = Inr (Completed, s1, printed1)"
proof (cases "run_epoch env inputs val_inputs batch_size s")
  case (Inl err)
  then show ?thesis using assms by simp
next
  case (Inr r)
  obtain s' tloss vloss where r: "r = (s', tloss, vloss)" by (cases r) auto
  show ?thesis
  proof (cases "stop_check e tloss vloss")
    case (Inl err)
    then show ?thesis using assms Inr r by (simp add: Let_def)
  next
    case c: (Inr stop)
    show ?thesis
    proof (cases stop)
      case True
      then show ?thesis using assms Inr r c by (simp add: Let_def)
    next
      case False
      then show ?thesis using assms Inr r c by (simp add: Let_def)
    qed
  qed
qed


lemma epochs_continue:
  assumes "epochs env inputs val_inputs batch_size j e s printed = Inr (Completed, s1, printed1)"
  shows "epochs env inputs val_inputs batch_size (j + k) e s printed
           = epochs env inputs val_inputs batch_size k (e + j) s1 printed1"
  using assms
proof (induction j arbitrary: e s printed)
  case 0
  then show ?case by simp
next
  case (Suc j)
  obtain s' tloss vloss where
    r: "run_epoch env inputs val_inputs batch_size s = Inr (s', tloss, vloss)"
    and c: "stop_check e tloss vloss = Inr False"
    and n: "epochs env inputs val_inputs batch_size j (Suc e) s' (printed @ [(e, tloss, vloss)])
              = Inr (Completed, s1, printed1)"
    using epochs_completed [OF Suc.prems] by blast
  have "epochs env inputs val_inputs batch_size (Suc (j + k)) e s printed
      = epochs env inputs val_inputs batch_size (j + k) (Suc e) s' (printed @ [(e, tloss, vloss)])"
    using epochs_step [OF r c] by simp
  also have "\<dots> = epochs env inputs val_inputs batch_size k (Suc e + j) s1 printed1"
    by (rule Suc.IH [OF n])
  finally show ?case by simp
qed

lemma epochs_numbers:
  assumes "epochs env inputs val_inputs batch_size j e s printed = Inr (Completed, s1, printed1)"
  shows "map fst printed1 = map fst printed @ [e..<e + j]"
  using assms
proof (induction j arbitrary: e s printed)
  case 0
  then show ?case by simp
next
  case (Suc j)
  obtain s' tloss vloss where
    n: "epochs env inputs val_inputs batch_size j (Suc e) s' (printed @ [(e, tloss, vloss)])
              = Inr (Completed, s1, printed1)"
    using epochs_completed [OF Suc.prems] by blast
  have "[e..<e + Suc j] = e # [Suc e..<Suc e + j]"
    by (simp add: upt_rec [of e])
  then show ?case using Suc.IH [OF n] by simp
qed

text \<open>
  C3.  Suppose a run got past its first \<open>e - 1\<close> epochs without stopping, epoch \<open>e\<close> is
  within the budget and later than epoch 15, and after it the condition
  \<open>val_loss - train_loss > train_loss / 32\<close> holds.  Then the run returns normally with
  the outcome \<open>StoppedEarly\<close>, in the state epoch \<open>e\<close> left; the reports printed are
  those of epochs 1 to \<open>e\<close>, so no later epoch is run.  With \<open>e = 16\<close>: epoch 17 is never
  run.
\<close>

theorem early_stop:
  assumes before: "train env inputs val_inputs (int e - 1) batch_size s
                     = Inr (Completed, s1, printed)"
    and epoch: "run_epoch env inputs val_inputs batch_size s1 = Inr (s2, train_loss, val_loss)"
    and late: "15 < e" and budget: "int e \<le> num_epochs"
    and gap: "loss_gap_exceeds train_loss val_loss = Inr True"
  shows "train env inputs val_inputs num_epochs batch_size s
           = Inr (StoppedEarly, s2, printed @ [(e, train_loss, val_loss)])
       \<and> map fst (printed @ [(e, train_loss, val_loss)]) = [1..<Suc e]"
proof -
  have "e \<le> nat num_epochs" using budget by linarith
  then have k: "nat num_epochs = (e - 1) + Suc (nat num_epochs - e)"
    using late by linarith
  have ne: "nat (int e - 1) = e - 1" by linarith
  have b: "epochs env inputs val_inputs batch_size (e - 1) 1 s [] = Inr (Completed, s1, printed)"
    using before by (simp add: train_def ne)
  have e1: "1 + (e - 1) = e" using late by linarith
  have c: "stop_check e train_loss val_loss = Inr True"
    using late gap by (simp add: stop_check_def)
  have "train env inputs val_inputs num_epochs batch_size s
      = epochs env inputs val_inputs batch_size ((e - 1) + Suc (nat num_epochs - e)) 1 s []"
    using k by (simp only: train_def)
  also have "\<dots> = epochs env inputs val_inputs batch_size (Suc (nat num_epochs - e)) e s1 printed"
    using epochs_continue [OF b, of "Suc (nat num_epochs - e)"] e1 by simp
  also have "\<dots> = Inr (StoppedEarly, s2, printed @ [(e, train_loss, val_loss)])"
    using epochs_step [OF epoch c] by simp
  finally have t: "train env inputs val_inputs num_epochs batch_size s
      = Inr (StoppedEarly, s2, printed @ [(e, train_loss, val_loss)])" .
  have "map fst printed = [1..<e]"
    using epochs_numbers [OF b] e1 by simp
  then have "map fst (printed @ [(e, train_loss, val_loss)]) = [1..<Suc e]"
    using late by simp
  then show ?thesis using t by simp
qed

lemma row_count_epoch:
  "run_epoch row_count one_example tiny_inputs 1 () = Inr ((), scalar 1, scalar 3)"
proof -
  have n: "num_batches one_example 1 = Inr 1"
    using num_batches_div [of one_example 1 "[5]" 1]
    by (simp add: one_example_def filled_def)
  obtain t where r: "rows_between one_example 0 1 = Inr t"
    by (simp add: rows_between_def one_example_def filled_def)
  have "training_step row_count t () = Inr ()"
    by (simp add: training_step_def row_count_def)
  then have "train_batches row_count one_example 1 [0] () = Inr ()"
    using r by simp
  then have t: "epoch_training row_count one_example 1 () = Inr ()"
    using n by (simp add: epoch_training_def)
  have l: "loss_op row_count one_example () = Inr (scalar 1, ())"
    "loss_op row_count tiny_inputs () = Inr (scalar 3, ())"
    by (simp_all add: row_count_def one_example_def tiny_inputs_def filled_def)
  show ?thesis
    by (simp add: run_epoch_def t l)
qed

lemma row_count_epochs:
  "e + j \<le> 16 \<Longrightarrow>
     epochs row_count one_example tiny_inputs 1 j e () printed
       = Inr (Completed, (), printed @ map (\<lambda>i. (i, scalar 1, scalar 3)) [e..<e + j])"
proof (induction j arbitrary: e printed)
  case 0
  then show ?case by simp
next
  case (Suc j)
  have c: "stop_check e (scalar 1) (scalar 3) = Inr False"
    using Suc.prems by (simp add: stop_check_def)
  have "[e..<e + Suc j] = e # [Suc e..<Suc e + j]"
    by (simp add: upt_rec [of e])
  then show ?case
    using epochs_step [OF row_count_epoch c] Suc.IH [of "Suc e"] Suc.prems by simp
qed

theorem early_stop_witness:
  "train row_count one_example tiny_inputs (int 16 - 1) 1 ()
     = Inr (Completed, (), map (\<lambda>i. (i, scalar 1, scalar 3)) [1..<16])
   \<and> run_epoch row_count one_example tiny_inputs 1 () = Inr ((), scalar 1, scalar 3)
   \<and> (15::nat) < 16 \<and> int 16 \<le> 32
   \<and> loss_gap_exceeds (scalar 1) (scalar 3) = Inr True
   \<and> train row_count one_example tiny_inputs 32 1 ()
       = Inr (StoppedEarly, (),
              map (\<lambda>i. (i, scalar 1, scalar 3)) [1..<16] @ [(16, scalar 1, scalar 3)])
   \<and> map fst (map (\<lambda>i. (i, scalar 1 :: real tensor, scalar 3 :: real tensor)) [1..<16]
               @ [(16, scalar 1, scalar 3)]) = [1..<Suc 16]"
proof -
  have b: "train row_count one_example tiny_inputs (int 16 - 1) 1 ()
     = Inr (Completed, (), map (\<lambda>i. (i, scalar 1, scalar 3)) [1..<16])"
    using row_count_epochs [of 1 15 "[]"] by (simp add: train_def)
  have l: "(15::nat) < 16" and n: "int 16 \<le> 32" by simp_all
  have g: "loss_gap_exceeds (scalar 1) (scalar 3) = Inr True"
    by (simp add: loss_gap_scalar)
  from early_stop [OF b row_count_epoch l n g] b row_count_epoch l n g
  show ?thesis by blast
qed

section \<open>Loss\<close>

lemma kl_refused:
  "kullback_leibler_divergence refusal y_true (Normal loc scale) = Inl refusal"
  by (simp add: kullback_leibler_divergence_def convert_to_tensor_def)

lemma loss_never_returns: "loss refusal noise p inputs \<noteq> Inr t"
proof (cases "encode p inputs")
  case (Inl e)
  then show ?thesis by (simp add: loss_def)
next
  case (Inr ms)
  then show ?thesis by (cases ms) (simp add: loss_def kl_refused)
qed

text \<open>
  C1.  The loss returns no value at all.  For a valid model and a batch of inputs of
  width \<open>input_dim\<close> the encoder succeeds, and line 63 then hands two distribution
  objects to a loss function of Keras that works on tensors: the call raises, and
  \<open>loss\<close> ends with that exception before anything is sampled, decoded or combined.
  On every other input the loss fails as well, so no call of \<open>loss\<close> returns the scalar
  \<open>(3 * mean_square_error + kl_divergence) / 4\<close>.
\<close>

theorem loss_raises:
  assumes v: "valid_params p input_dim hidden_1 hidden_2 code_dim"
    and i: "shape inputs = [batch, input_dim]"
  shows "loss refusal noise p inputs = Inl refusal
       \<and> (\<forall>noise' p' inputs' t. loss refusal noise' p' inputs' \<noteq> Inr t)"
proof -
  obtain e mean stddev where "encode p inputs = Inr (mean, stddev)"
    using encode_ok [OF v i] by blast
  then have "loss refusal noise p inputs = Inl refusal"
    by (simp add: loss_def kl_refused)
  then show ?thesis using loss_never_returns by blast
qed

theorem loss_raises_witness:
  "loss ValueError zero_draw tiny_params tiny_inputs = Inl ValueError
   \<and> (\<forall>noise' p' inputs' t. loss ValueError noise' p' inputs' \<noteq> Inr t)"
proof -
  have v: "valid_params tiny_params 5 4 2 2"
    by (simp add: valid_params_def tiny_params_def filled_def)
  have i: "shape tiny_inputs = [3, 5]"
    by (simp add: tiny_inputs_def filled_def)
  from loss_raises [OF v i] show ?thesis .
qed

end
